theory Spec2Isabelle
  imports Main "HOL-Library.Word"
begin

section \<open>JavaScript strings\<close>

text \<open>
  A JavaScript string is a sequence of UTF-16 code units. A code unit is modelled by its
  numeric value, so that the regular expression of \<^verbatim>\<open>server.js\<close>, \<^verbatim>\<open>includes\<close>,
  \<^verbatim>\<open>startsWith\<close> and the white space trimmed by the validation chain all see what
  the JavaScript sees. \<open>js\<close> turns an ASCII literal into such a string.
\<close>

type_synonym code_unit = nat
type_synonym jsstring = "code_unit list"

definition cu :: "char \<Rightarrow> code_unit" where
  "cu c = of_char c"

definition js :: "string \<Rightarrow> jsstring" where
  "js s = map cu s"

text \<open>\<^verbatim>\<open>s.startsWith(p)\<close> and \<^verbatim>\<open>s.includes(p)\<close>.\<close>

fun startsWith :: "'a list \<Rightarrow> 'a list \<Rightarrow> bool" where
  "startsWith s [] = True"
| "startsWith [] (p # ps) = False"
| "startsWith (c # cs) (p # ps) = (c = p \<and> startsWith cs ps)"

fun js_includes :: "'a list \<Rightarrow> 'a list \<Rightarrow> bool" where
  "js_includes [] p = (p = [])"
| "js_includes (c # cs) p = (startsWith (c # cs) p \<or> js_includes cs p)"

section \<open>The path guard of canonicalization-example/server.js\<close>

subsection \<open>sanitizeFilename\<close>

text \<open>
  \<^verbatim>\<open>const SAFE_FILENAME = /^[A-Za-z0-9._\-\/]+$/;\<close>
  The character class, then the test: one or more characters, all of the class.
\<close>

definition safe_char :: "code_unit \<Rightarrow> bool" where
  "safe_char c \<longleftrightarrow>
     (cu CHR ''A'' \<le> c \<and> c \<le> cu CHR ''Z'') \<or>
     (cu CHR ''a'' \<le> c \<and> c \<le> cu CHR ''z'') \<or>
     (cu CHR ''0'' \<le> c \<and> c \<le> cu CHR ''9'') \<or>
     c = cu CHR ''.'' \<or> c = cu CHR ''_'' \<or> c = cu CHR ''-'' \<or> c = cu CHR ''/''"

definition SAFE_FILENAME_test :: "jsstring \<Rightarrow> bool" where
  "SAFE_FILENAME_test v \<longleftrightarrow> v \<noteq> [] \<and> list_all safe_char v"

text \<open>The three errors that \<^verbatim>\<open>sanitizeFilename\<close> throws, by their messages.\<close>

datatype filename_error =
    IllegalCharacters      \<comment> \<open>"Illegal characters in filename"\<close>
  | PathTraversalAttempt   \<comment> \<open>"Path traversal attempt"\<close>
  | AbsolutePath           \<comment> \<open>"Absolute paths not allowed"\<close>

definition sanitizeFilename :: "jsstring \<Rightarrow> filename_error + jsstring" where
  "sanitizeFilename v =
     (if \<not> SAFE_FILENAME_test v then Inl IllegalCharacters
      else if js_includes v (js ''..'') then Inl PathTraversalAttempt
      else if startsWith v (js ''/'') then Inl AbsolutePath
      else Inr v)"

subsection \<open>decodeURIComponent\<close>

text \<open>
  The built-in of the language (ECMAScript, Decode with an empty reserved set), in two
  passes. The first reads every \<^verbatim>\<open>%XX\<close> escape as an octet and fails on a
  \<^verbatim>\<open>%\<close> that two hexadecimal digits do not follow. The second reads the octets as
  UTF-8: an octet below \<^verbatim>\<open>0x80\<close> is its character, a lead octet takes the
  continuation octets that follow it (escapes, all of them), and an ill-formed sequence
  (a stray continuation octet, an overlong form, a surrogate, a value above
  \<^verbatim>\<open>0x10FFFF\<close>) fails. \<open>None\<close> is the URIError.
\<close>

definition hexval :: "code_unit \<Rightarrow> nat option" where
  "hexval c =
     (if cu CHR ''0'' \<le> c \<and> c \<le> cu CHR ''9'' then Some (c - cu CHR ''0'')
      else if cu CHR ''a'' \<le> c \<and> c \<le> cu CHR ''f'' then Some (c - cu CHR ''a'' + 10)
      else if cu CHR ''A'' \<le> c \<and> c \<le> cu CHR ''F'' then Some (c - cu CHR ''A'' + 10)
      else None)"

datatype uri_token = Lit code_unit | Octet nat

fun unescape :: "jsstring \<Rightarrow> uri_token list option" where
  "unescape [] = Some []"
| "unescape (c # cs) =
     (if c = cu CHR ''%'' then
        (case cs of
           h1 # h2 # rest \<Rightarrow>
             (case (hexval h1, hexval h2) of
                (Some a, Some b) \<Rightarrow> map_option ((#) (Octet (16 * a + b))) (unescape rest)
              | _ \<Rightarrow> None)
         | _ \<Rightarrow> None)
      else map_option ((#) (Lit c)) (unescape cs))"

definition continuation :: "nat \<Rightarrow> bool" where
  "continuation b \<longleftrightarrow> 128 \<le> b \<and> b < 192"

text \<open>UTF16EncodeCodePoint: one code unit, or a surrogate pair.\<close>

definition utf16 :: "nat \<Rightarrow> jsstring" where
  "utf16 cp =
     (if cp < 65536 then [cp]
      else [55296 + (cp - 65536) div 1024, 56320 + (cp - 65536) mod 1024])"

fun assemble :: "uri_token list \<Rightarrow> jsstring option" where
  "assemble [] = Some []"
| "assemble (Lit c # ts) = map_option ((#) c) (assemble ts)"
| "assemble (Octet b # ts) =
     (if b < 128 then map_option ((#) b) (assemble ts)
      else if b < 192 then None
      else if b < 224 then
        (case ts of
           Octet b1 # ts' \<Rightarrow>
             (let cp = (b - 192) * 64 + (b1 - 128)
              in if continuation b1 \<and> 128 \<le> cp
                 then map_option ((@) (utf16 cp)) (assemble ts') else None)
         | _ \<Rightarrow> None)
      else if b < 240 then
        (case ts of
           Octet b1 # Octet b2 # ts' \<Rightarrow>
             (let cp = (b - 224) * 4096 + (b1 - 128) * 64 + (b2 - 128)
              in if continuation b1 \<and> continuation b2 \<and> 2048 \<le> cp
                    \<and> \<not> (55296 \<le> cp \<and> cp < 57344)
                 then map_option ((@) (utf16 cp)) (assemble ts') else None)
         | _ \<Rightarrow> None)
      else if b < 248 then
        (case ts of
           Octet b1 # Octet b2 # Octet b3 # ts' \<Rightarrow>
             (let cp = (b - 240) * 262144 + (b1 - 128) * 4096 + (b2 - 128) * 64 + (b3 - 128)
              in if continuation b1 \<and> continuation b2 \<and> continuation b3
                    \<and> 65536 \<le> cp \<and> cp < 1114112
                 then map_option ((@) (utf16 cp)) (assemble ts') else None)
         | _ \<Rightarrow> None)
      else None)"

definition decodeURIComponent :: "jsstring \<Rightarrow> jsstring option" where
  "decodeURIComponent s = (case unescape s of None \<Rightarrow> None | Some ts \<Rightarrow> assemble ts)"

subsection \<open>path.resolve\<close>

text \<open>
  The POSIX \<^verbatim>\<open>path.resolve\<close> of Node.js. It walks its arguments from the right,
  skipping empty ones and putting each in front of what it has, until one of them is
  absolute; when none is, the working directory of the process comes last. The path is
  then normalised segment by segment: empty segments and \<^verbatim>\<open>.\<close> go, \<^verbatim>\<open>..\<close> takes
  the segment before it away (at the root of an absolute path it just goes; in a relative
  path with nothing before it, it stays). The result has no trailing separator.
\<close>

definition sep :: jsstring where
  "sep = js ''/''"

fun resolve_loop :: "jsstring list \<Rightarrow> jsstring \<Rightarrow> jsstring \<times> bool" where
  "resolve_loop [] resolvedPath = (resolvedPath, False)"
| "resolve_loop (p # ps) resolvedPath =
     (case p of
        [] \<Rightarrow> resolve_loop ps resolvedPath
      | c # _ \<Rightarrow>
          if c = cu CHR ''/'' then (p @ sep @ resolvedPath, True)
          else resolve_loop ps (p @ sep @ resolvedPath))"

fun split_sep :: "jsstring \<Rightarrow> jsstring list" where
  "split_sep [] = [[]]"
| "split_sep (c # cs) =
     (if c = cu CHR ''/'' then [] # split_sep cs
      else (case split_sep cs of [] \<Rightarrow> [[c]] | s # ss \<Rightarrow> (c # s) # ss))"

fun join_sep :: "jsstring list \<Rightarrow> jsstring" where
  "join_sep [] = []"
| "join_sep [s] = s"
| "join_sep (s # t # ss) = s @ sep @ join_sep (t # ss)"

text \<open>
  One segment read: what becomes of the segments kept so far, which are held last first.
\<close>

definition push_segment :: "bool \<Rightarrow> jsstring list \<Rightarrow> jsstring \<Rightarrow> jsstring list" where
  "push_segment allowAboveRoot res s =
     (if s = [] \<or> s = js ''.'' then res
      else if s = js ''..'' then
        (case res of
           [] \<Rightarrow> if allowAboveRoot then [s] else []
         | t # ts \<Rightarrow>
             if t = js ''..'' then (if allowAboveRoot then s # res else res) else ts)
      else s # res)"

definition normalizeString :: "jsstring \<Rightarrow> bool \<Rightarrow> jsstring" where
  "normalizeString p allowAboveRoot =
     join_sep (rev (foldl (push_segment allowAboveRoot) [] (split_sep p)))"

text \<open>A segment of a normalised path: not empty, and without a separator.\<close>

definition segment :: "jsstring \<Rightarrow> bool" where
  "segment s \<longleftrightarrow> s \<noteq> [] \<and> cu CHR ''/'' \<notin> set s"

definition path_resolve :: "jsstring \<Rightarrow> jsstring list \<Rightarrow> jsstring" where
  "path_resolve cwd args =
     (case resolve_loop (rev args @ [cwd]) [] of
        (resolvedPath, resolvedAbsolute) \<Rightarrow>
          (let n = normalizeString resolvedPath (\<not> resolvedAbsolute)
           in if resolvedAbsolute then sep @ n
              else if n \<noteq> [] then n else js ''.''))"

subsection \<open>resolveSafe\<close>

text \<open>
  \<^verbatim>\<open>try { userInput = decodeURIComponent(userInput); } catch (e) {}\<close>
  \<^verbatim>\<open>return path.resolve(baseDir, userInput);\<close>
  A decoding error is swallowed and leaves the input as it was.
\<close>

definition decode_or_keep :: "jsstring \<Rightarrow> jsstring" where
  "decode_or_keep userInput =
     (case decodeURIComponent userInput of Some d \<Rightarrow> d | None \<Rightarrow> userInput)"

definition resolveSafe :: "jsstring \<Rightarrow> jsstring \<Rightarrow> jsstring \<Rightarrow> jsstring" where
  "resolveSafe cwd baseDir userInput = path_resolve cwd [baseDir, decode_or_keep userInput]"

subsection \<open>The validation chain and the handler of /read\<close>

text \<open>
  The white space of \<^verbatim>\<open>\s\<close>, which \<^verbatim>\<open>.trim()\<close> of the validation chain takes
  off both ends of the field before the checks after it run and before the handler reads
  \<^verbatim>\<open>req.body.filename\<close>.
\<close>

definition is_whitespace :: "code_unit \<Rightarrow> bool" where
  "is_whitespace c \<longleftrightarrow>
     (9 \<le> c \<and> c \<le> 13) \<or> c = 32 \<or> c = 160 \<or> c = 5760 \<or> (8192 \<le> c \<and> c \<le> 8202) \<or>
     c = 8232 \<or> c = 8233 \<or> c = 8239 \<or> c = 8287 \<or> c = 12288 \<or> c = 65279"

definition ltrim :: "jsstring \<Rightarrow> jsstring" where
  "ltrim s = dropWhile is_whitespace s"

definition rtrim :: "jsstring \<Rightarrow> jsstring" where
  "rtrim s = rev (dropWhile is_whitespace (rev s))"

definition trim :: "jsstring \<Rightarrow> jsstring" where
  "trim s = rtrim (ltrim s)"

text \<open>
  The errors of the chain: \<^verbatim>\<open>.exists()\<close> with its message and \<^verbatim>\<open>.bail()\<close>,
  \<^verbatim>\<open>.notEmpty()\<close> with its message, and \<^verbatim>\<open>.custom(sanitizeFilename)\<close>, whose
  error is the one thrown. The field is \<open>None\<close> when the body has no \<^verbatim>\<open>filename\<close>
  and a string otherwise; \<^verbatim>\<open>.isString()\<close> holds of every string.
\<close>

datatype validation_error =
    FilenameRequired       \<comment> \<open>"filename required"\<close>
  | FilenameEmpty          \<comment> \<open>"filename must not be empty"\<close>
  | Thrown filename_error

definition validate_filename :: "jsstring \<Rightarrow> validation_error list" where
  "validate_filename v =
     (if v = [] then [FilenameEmpty] else []) @
     (case sanitizeFilename v of Inl e \<Rightarrow> [Thrown e] | Inr _ \<Rightarrow> [])"

text \<open>
  The file system, as the handler sees it: what is at a path, if anything.
  \<^verbatim>\<open>fs.readFileSync\<close> of a directory throws, and the handler does not catch it.
  Every call the handler makes to the file system is recorded, in order.
\<close>

datatype node = File jsstring | Dir

record env =
  cwd :: jsstring
  dirname :: jsstring
  files :: "jsstring \<rightharpoonup> node"

datatype fs_call = ExistsSync jsstring | ReadFileSync jsstring

datatype response =
    Status400 "validation_error list"  \<comment> \<open>\<^verbatim>\<open>{ errors: errors.array() }\<close>\<close>
  | Status403                          \<comment> \<open>\<^verbatim>\<open>{ error: 'Path traversal detected' }\<close>\<close>
  | Status404                          \<comment> \<open>\<^verbatim>\<open>{ error: 'File not found' }\<close>\<close>
  | Status200 jsstring jsstring        \<comment> \<open>\<^verbatim>\<open>{ path: normalized, content }\<close>\<close>
  | Status500                          \<comment> \<open>an exception that left the handler\<close>

text \<open>\<^verbatim>\<open>const BASE_DIR = path.resolve(__dirname, 'files');\<close>\<close>

definition BASE_DIR :: "env \<Rightarrow> jsstring" where
  "BASE_DIR e = path_resolve (cwd e) [dirname e, js ''files'']"

text \<open>
  The end of the handler, once the path has passed the check:
  \<^verbatim>\<open>if (!fs.existsSync(normalized)) return res.status(404)...;\<close>
  \<^verbatim>\<open>const content = fs.readFileSync(normalized, 'utf8');\<close>
  \<^verbatim>\<open>res.json({ path: normalized, content });\<close>
\<close>

definition serve_file :: "env \<Rightarrow> jsstring \<Rightarrow> response \<times> fs_call list" where
  "serve_file e normalized =
     (case files e normalized of
        None \<Rightarrow> (Status404, [ExistsSync normalized])
      | Some Dir \<Rightarrow> (Status500, [ExistsSync normalized, ReadFileSync normalized])
      | Some (File content) \<Rightarrow>
          (Status200 normalized content, [ExistsSync normalized, ReadFileSync normalized]))"

definition read_handler :: "env \<Rightarrow> jsstring option \<Rightarrow> response \<times> fs_call list" where
  "read_handler e field =
     (case field of
        None \<Rightarrow> (Status400 [FilenameRequired], [])
      | Some raw \<Rightarrow>
          (let filename = trim raw;
               errors = validate_filename filename
           in if errors \<noteq> [] then (Status400 errors, [])
              else
                (let normalized = resolveSafe (cwd e) (BASE_DIR e) filename
                 in if \<not> startsWith normalized (BASE_DIR e @ sep) then (Status403, [])
                    else serve_file e normalized)))"

text \<open>
  An installation for the examples: the server in \<^verbatim>\<open>/srv/app\<close>, with the files
  that \<^verbatim>\<open>/setup-sample\<close> writes.
\<close>

definition hello_content :: jsstring where
  "hello_content = js ''Hello from safe file!'' @ [10]"

definition readme_content :: jsstring where
  "readme_content = js ''# Readme'' @ [10] @ js ''Sample readme file''"

definition sample_env :: env where
  "sample_env =
     \<lparr>cwd = js ''/srv/app'',
      dirname = js ''/srv/app'',
      files =
        [js ''/srv/app/files'' \<mapsto> Dir,
         js ''/srv/app/files/hello.txt'' \<mapsto> File hello_content,
         js ''/srv/app/files/notes'' \<mapsto> Dir,
         js ''/srv/app/files/notes/readme.md'' \<mapsto> File readme_content]\<rparr>"

section \<open>The session manager of the login server\<close>

subsection \<open>Users and password hashes\<close>

text \<open>
  \<^verbatim>\<open>bcrypt\<close> is a library: a hash is a value of a type \<open>'h\<close>, and
  \<^verbatim>\<open>bcrypt.compare\<close> is a parameter \<open>compare\<close> of the login. The one user of the
  table has the hash \<open>h\<close> that \<^verbatim>\<open>bcrypt.hashSync("password123", 12)\<close> gave when
  the server started. Cookie values are strings. The fields \<^verbatim>\<open>username\<close> and
  \<^verbatim>\<open>password\<close> of the body are strings, or \<open>None\<close> when the body has no such field
  or has a value there that is not a string. \<^verbatim>\<open>u.username === username\<close> is false
  of such a value, and \<^verbatim>\<open>bcrypt.compare\<close> rejects it.
\<close>

record 'h user =
  user_id :: int
  username :: jsstring
  passwordHash :: 'h

definition users :: "'h \<Rightarrow> 'h user list" where
  "users h = [\<lparr>user_id = 1, username = js ''student'', passwordHash = h\<rparr>]"

definition findUser :: "'h \<Rightarrow> jsstring option \<Rightarrow> 'h user option" where
  "findUser h name = find (\<lambda>u. Some (username u) = name) (users h)"

subsection \<open>The session table\<close>

text \<open>
  \<^verbatim>\<open>const sessions = {};\<close> is an ordinary object. \<^verbatim>\<open>sessions[token]\<close> finds a
  property of the object itself, stored by \<^verbatim>\<open>createSession\<close>, or else a property
  that the object inherits from \<^verbatim>\<open>Object.prototype\<close>: under each of the names of
  \<open>proto_keys\<close> it finds a function, or the prototype itself under
  \<^verbatim>\<open>__proto__\<close>, and each of them is truthy. \<^verbatim>\<open>delete sessions[token]\<close> takes
  a property of the object itself away and leaves an inherited one.

  The inherited objects have no \<^verbatim>\<open>userId\<close> and at first no \<^verbatim>\<open>expires\<close>.
  \<^verbatim>\<open>requireAuth\<close> assigns \<^verbatim>\<open>expires\<close> to the object it finds, so the state
  also holds what has been assigned to an inherited object, by the name it was found
  under. An inherited function that has no \<^verbatim>\<open>expires\<close> of its own reads the one
  of \<^verbatim>\<open>Object.prototype\<close>, the object found under \<^verbatim>\<open>__proto__\<close>. The session
  objects are made with \<^verbatim>\<open>Object.create(null)\<close> and inherit nothing.

  Once \<^verbatim>\<open>requireAuth\<close> has assigned \<^verbatim>\<open>expires\<close> to \<^verbatim>\<open>Object.prototype\<close>,
  the table inherits a property of that name: \<^verbatim>\<open>sessions["expires"]\<close> is the number
  assigned, truthy unless it is zero. Read from that number, \<^verbatim>\<open>expires\<close> is the same
  number again and \<^verbatim>\<open>userId\<close> is undefined, and an assignment to a property of a
  number does nothing.
\<close>

record session =
  userId :: int
  expires :: int

record store =
  sessions :: "jsstring \<rightharpoonup> session"
  inherited_expires :: "jsstring \<rightharpoonup> int"

definition empty_store :: store where
  "empty_store = \<lparr>sessions = Map.empty, inherited_expires = Map.empty\<rparr>"

definition proto_keys :: "jsstring list" where
  "proto_keys =
     [js ''constructor'', js ''__defineGetter__'', js ''__defineSetter__'',
      js ''hasOwnProperty'', js ''__lookupGetter__'', js ''__lookupSetter__'',
      js ''isPrototypeOf'', js ''propertyIsEnumerable'', js ''toString'', js ''valueOf'',
      js ''__proto__'', js ''toLocaleString'']"

definition inherited_expiry :: "store \<Rightarrow> jsstring \<Rightarrow> int option" where
  "inherited_expiry st k =
     (case inherited_expires st k of
        Some x \<Rightarrow> Some x
      | None \<Rightarrow> inherited_expires st (js ''__proto__''))"

text \<open>\<^verbatim>\<open>sessions[token]\<close>, and whether what it finds is truthy.\<close>

datatype lookup_result =
    Undefined
  | Own session            \<comment> \<open>a session stored under the token\<close>
  | InheritedObject        \<comment> \<open>a function of \<^verbatim>\<open>Object.prototype\<close>, or the prototype itself\<close>
  | InheritedNumber int    \<comment> \<open>the \<^verbatim>\<open>expires\<close> assigned to \<^verbatim>\<open>Object.prototype\<close>\<close>

definition lookup :: "store \<Rightarrow> jsstring \<Rightarrow> lookup_result" where
  "lookup st token =
     (case sessions st token of
        Some session \<Rightarrow> Own session
      | None \<Rightarrow>
          if token \<in> set proto_keys then InheritedObject
          else if token = js ''expires'' then
            (case inherited_expires st (js ''__proto__'') of
               Some x \<Rightarrow> InheritedNumber x
             | None \<Rightarrow> Undefined)
          else Undefined)"

fun truthy :: "lookup_result \<Rightarrow> bool" where
  "truthy Undefined = False"
| "truthy (Own session) = True"
| "truthy InheritedObject = True"
| "truthy (InheritedNumber x) = (x \<noteq> 0)"

text \<open>\<^verbatim>\<open>delete sessions[token]\<close>\<close>

definition delete_session :: "store \<Rightarrow> jsstring \<Rightarrow> store" where
  "delete_session st token = st\<lparr>sessions := (sessions st)(token := None)\<rparr>"

subsection \<open>createSession and rotateSession\<close>

text \<open>
  \<^verbatim>\<open>crypto.randomBytes(32).toString("hex")\<close>: the 32 random bytes are a parameter,
  a 256-bit value; the token is its 64 hexadecimal digits.
\<close>

definition hex_digit :: "nat \<Rightarrow> code_unit" where
  "hex_digit d = (if d < 10 then cu CHR ''0'' + d else cu CHR ''a'' + (d - 10))"

fun to_hex :: "nat \<Rightarrow> nat \<Rightarrow> jsstring" where
  "to_hex 0 n = []"
| "to_hex (Suc k) n = to_hex k (n div 16) @ [hex_digit (n mod 16)]"

definition token_of :: "256 word \<Rightarrow> jsstring" where
  "token_of randomBytes = to_hex 64 (unat randomBytes)"

text \<open>\<^verbatim>\<open>30 * 60 * 1000\<close> milliseconds.\<close>

definition TTL :: int where
  "TTL = 30 * 60 * 1000"

definition createSession :: "store \<Rightarrow> int \<Rightarrow> int \<Rightarrow> 256 word \<Rightarrow> jsstring \<times> store" where
  "createSession st uid now randomBytes =
     (let token = token_of randomBytes;
          expires = now + TTL
      in (token, st\<lparr>sessions := (sessions st)(token \<mapsto> \<lparr>userId = uid, expires = expires\<rparr>)\<rparr>))"

text \<open>
  \<^verbatim>\<open>if (oldToken && sessions[oldToken]) { delete sessions[oldToken]; }\<close>
  A cookie that is absent is \<open>None\<close>; the empty string is falsy as well.
\<close>


definition rotateSession ::
  "store \<Rightarrow> jsstring option \<Rightarrow> int \<Rightarrow> int \<Rightarrow> 256 word \<Rightarrow> jsstring \<times> store" where
  "rotateSession st oldToken uid now randomBytes =
     (let st' =
        (case oldToken of
           None \<Rightarrow> st
         | Some old \<Rightarrow>
             if old \<noteq> [] \<and> truthy (lookup st old) then delete_session st old else st)
      in createSession st' uid now randomBytes)"

subsection \<open>requireAuth\<close>

text \<open>
  The middleware answers 401 with \<^verbatim>\<open>{ authenticated: false }\<close>, after
  \<^verbatim>\<open>res.clearCookie("session")\<close> or without it, or calls \<^verbatim>\<open>next()\<close> with
  \<^verbatim>\<open>req.userId\<close> set, to \<^verbatim>\<open>undefined\<close> when the object found has no
  \<^verbatim>\<open>userId\<close>. It reads the clock twice: \<open>now1\<close> for the expiry test and
  \<open>now2\<close> for the new expiry. A comparison with \<^verbatim>\<open>undefined\<close> is false.
\<close>

datatype auth_outcome =
    Unauthorized bool     \<comment> \<open>401; the flag tells that the cookie was cleared\<close>
  | Next "int option"     \<comment> \<open>\<^verbatim>\<open>next()\<close>, with \<^verbatim>\<open>req.userId\<close>\<close>

definition requireAuth ::
  "store \<Rightarrow> jsstring option \<Rightarrow> int \<Rightarrow> int \<Rightarrow> auth_outcome \<times> store" where
  "requireAuth st cookie now1 now2 =
     (case cookie of
        None \<Rightarrow> (Unauthorized False, st)
      | Some token \<Rightarrow>
          if token = [] then (Unauthorized False, st)
          else
            (case lookup st token of
               Undefined \<Rightarrow> (Unauthorized False, st)
             | Own session \<Rightarrow>
                 if now1 > expires session
                 then (Unauthorized True, delete_session st token)
                 else (Next (Some (userId session)),
                       st\<lparr>sessions := (sessions st)(token \<mapsto> session\<lparr>expires := now2 + TTL\<rparr>)\<rparr>)
             | InheritedObject \<Rightarrow>
                 if (case inherited_expiry st token of
                       Some x \<Rightarrow> now1 > x | None \<Rightarrow> False)
                 then (Unauthorized True, delete_session st token)
                 else (Next None,
                       st\<lparr>inherited_expires := (inherited_expires st)(token \<mapsto> now2 + TTL)\<rparr>)
             | InheritedNumber x \<Rightarrow>
                 if x = 0 then (Unauthorized False, st)
                 else if now1 > x then (Unauthorized True, delete_session st token)
                 else (Next None, st)))"

subsection \<open>The routes\<close>

text \<open>\<^verbatim>\<open>/api/me\<close>: a user id that no user has makes \<^verbatim>\<open>user.username\<close> throw.\<close>

datatype me_response =
    Me401 bool        \<comment> \<open>from \<^verbatim>\<open>requireAuth\<close>\<close>
  | Me200 jsstring    \<comment> \<open>\<^verbatim>\<open>{ authenticated: true, username }\<close>\<close>
  | Me500

definition api_me ::
  "'h \<Rightarrow> store \<Rightarrow> jsstring option \<Rightarrow> int \<Rightarrow> int \<Rightarrow> me_response \<times> store" where
  "api_me h st cookie now1 now2 =
     (case requireAuth st cookie now1 now2 of
        (Unauthorized cleared, st') \<Rightarrow> (Me401 cleared, st')
      | (Next uid, st') \<Rightarrow>
          (case find (\<lambda>u. Some (user_id u) = uid) (users h) of
             None \<Rightarrow> (Me500, st')
           | Some user \<Rightarrow> (Me200 (username user), st')))"

text \<open>
  \<^verbatim>\<open>/api/login\<close>. The answer is 401 with \<^verbatim>\<open>{ success: false, message }\<close> or
  \<^verbatim>\<open>{ success: true }\<close> with the new token in the cookie. The calls of
  \<^verbatim>\<open>bcrypt.compare\<close> are recorded, each with its two arguments. When the password
  is not a string, the promise of \<^verbatim>\<open>bcrypt.compare\<close> rejects; nothing catches it,
  so the promise of the handler rejects as well and the handler writes no answer
  (\<open>Rejected\<close>).
\<close>

datatype login_response =
    Failure401 jsstring
  | Success jsstring
  | Rejected

definition INVALID :: login_response where
  "INVALID = Failure401 (js ''Invalid username or password'')"

definition api_login ::
  "(jsstring \<Rightarrow> 'h \<Rightarrow> bool) \<Rightarrow> 'h \<Rightarrow> store \<Rightarrow> jsstring option \<Rightarrow> jsstring option
     \<Rightarrow> jsstring option \<Rightarrow> int \<Rightarrow> 256 word
     \<Rightarrow> login_response \<times> store \<times> (jsstring option \<times> 'h) list" where
  "api_login compare h st name password cookie now randomBytes =
     (case findUser h name of
        None \<Rightarrow> (INVALID, st, [])
      | Some user \<Rightarrow>
          (case password of
             None \<Rightarrow> (Rejected, st, [(password, passwordHash user)])
           | Some p \<Rightarrow>
               if \<not> compare p (passwordHash user)
               then (INVALID, st, [(password, passwordHash user)])
               else
                 (case rotateSession st cookie (user_id user) now randomBytes of
                    (newToken, st') \<Rightarrow>
                      (Success newToken, st', [(password, passwordHash user)]))))"

text \<open>\<^verbatim>\<open>/api/logout\<close> always answers \<^verbatim>\<open>{ success: true }\<close>.\<close>

definition api_logout :: "store \<Rightarrow> jsstring option \<Rightarrow> store" where
  "api_logout st cookie =
     (case cookie of
        None \<Rightarrow> st
      | Some token \<Rightarrow>
          if token \<noteq> [] \<and> truthy (lookup st token) then delete_session st token else st)"

text \<open>The requests that reach the session table, and the server run on a list of them.\<close>

datatype request =
    Login "jsstring option" "jsstring option" "jsstring option" int "256 word"
  | Logout "jsstring option"
  | Me "jsstring option" int int

fun random_of :: "request \<Rightarrow> 256 word list" where
  "random_of (Login name password cookie now randomBytes) = [randomBytes]"
| "random_of (Logout cookie) = []"
| "random_of (Me cookie now1 now2) = []"

fun serve :: "(jsstring \<Rightarrow> 'h \<Rightarrow> bool) \<Rightarrow> 'h \<Rightarrow> store \<Rightarrow> request \<Rightarrow> store" where
  "serve compare h st (Login name password cookie now randomBytes) =
     fst (snd (api_login compare h st name password cookie now randomBytes))"
| "serve compare h st (Logout cookie) = api_logout st cookie"
| "serve compare h st (Me cookie now1 now2) = snd (api_me h st cookie now1 now2)"

fun run :: "(jsstring \<Rightarrow> 'h \<Rightarrow> bool) \<Rightarrow> 'h \<Rightarrow> store \<Rightarrow> request list \<Rightarrow> store" where
  "run compare h st [] = st"
| "run compare h st (r # rs) = run compare h (serve compare h st r) rs"

text \<open>
  For the examples: a comparison that stands for \<^verbatim>\<open>bcrypt.compare\<close>, with the
  password itself as its hash, and a table with one session, which expires at time 1000.
\<close>

definition plain_compare :: "jsstring \<Rightarrow> jsstring \<Rightarrow> bool" where
  "plain_compare password hash \<longleftrightarrow> hash = password"

definition sample_store :: store where
  "sample_store =
     \<lparr>sessions = [token_of 1 \<mapsto> \<lparr>userId = 1, expires = 1000\<rparr>],
      inherited_expires = Map.empty\<rparr>"

section \<open>Properties of the path guard\<close>

subsection \<open>Strings\<close>

lemma startsWith_iff: "startsWith s p \<longleftrightarrow> (\<exists>r. s = p @ r)"
  by (induction s p rule: startsWith.induct) auto

lemma js_includes_iff: "js_includes s p \<longleftrightarrow> (\<exists>a b. s = a @ p @ b)"
proof (induction s)
  case Nil
  show ?case by simp
next
  case (Cons c cs)
  show ?case
  proof
    assume "js_includes (c # cs) p"
    then consider "startsWith (c # cs) p" | "js_includes cs p" by auto
    then show "\<exists>a b. c # cs = a @ p @ b"
    proof cases
      case 1
      then obtain r where "c # cs = p @ r" by (auto simp: startsWith_iff)
      then have "c # cs = [] @ p @ r" by simp
      then show ?thesis by blast
    next
      case 2
      then obtain a b where "cs = a @ p @ b" using Cons.IH by auto
      then have "c # cs = (c # a) @ p @ b" by simp
      then show ?thesis by blast
    qed
  next
    assume "\<exists>a b. c # cs = a @ p @ b"
    then obtain a b where ab: "c # cs = a @ p @ b" by auto
    show "js_includes (c # cs) p"
    proof (cases a)
      case Nil
      with ab have "startsWith (c # cs) p" by (simp add: startsWith_iff)
      then show ?thesis by simp
    next
      case (Cons x a')
      with ab have "cs = a' @ p @ b" by simp
      then show ?thesis using Cons.IH by auto
    qed
  qed
qed

lemma dropWhile_keeps: "\<not> P c \<Longrightarrow> dropWhile P (a @ c # r) = dropWhile P a @ c # r"
  by (induction a) auto

lemma trim_keeps:
  assumes "p \<noteq> []" "\<not> is_whitespace (hd p)" "\<not> is_whitespace (last p)"
  shows "trim (a @ p @ b) = ltrim a @ p @ rtrim b"
proof -
  obtain c p' where p: "p = c # p'" using assms(1) by (cases p) auto
  obtain q d where q: "p = q @ [d]" using assms(1) by (cases p rule: rev_cases) auto
  have c: "\<not> is_whitespace c" using assms(2) p by simp
  have d: "\<not> is_whitespace d" using assms(3) q by simp
  have "ltrim (a @ p @ b) = ltrim a @ p @ b"
    unfolding ltrim_def p using dropWhile_keeps [of is_whitespace c a "p' @ b"] c by simp
  moreover have "rtrim (ltrim a @ p @ b) = ltrim a @ p @ rtrim b"
    unfolding rtrim_def q using dropWhile_keeps [of is_whitespace d "rev b" "rev q @ rev (ltrim a)"] d by simp
  ultimately show ?thesis by (simp add: trim_def)
qed

lemma cu_values:
  "cu CHR ''/'' = 47" "cu CHR ''.'' = 46" "cu CHR ''%'' = 37" "cu CHR ''_'' = 95" "cu CHR ''-'' = 45"
  "cu CHR ''A'' = 65" "cu CHR ''Z'' = 90" "cu CHR ''a'' = 97" "cu CHR ''z'' = 122"
  "cu CHR ''0'' = 48" "cu CHR ''9'' = 57" "cu CHR ''f'' = 102" "cu CHR ''F'' = 70"
  by (simp_all add: cu_def)

lemma safe_char_not_whitespace: "safe_char c \<Longrightarrow> \<not> is_whitespace c"
  by (auto simp: safe_char_def is_whitespace_def cu_values)

lemma safe_char_not_percent: "safe_char c \<Longrightarrow> c \<noteq> cu CHR ''%''"
  by (auto simp: safe_char_def cu_values)


lemma js_literals:
  "js ''..'' = [46, 46]" "js ''/'' = [47]" "js ''../'' = [46, 46, 47]" "js ''.'' = [46]"
  by (simp_all add: js_def cu_def)

lemma trim_dotdot:
  assumes "js_includes raw (js ''../'')"
  shows "js_includes (trim raw) (js ''..'')"
proof -
  from assms obtain a b where "raw = a @ js ''../'' @ b"
    by (auto simp: js_includes_iff)
  moreover have "trim (a @ js ''../'' @ b) = ltrim a @ js ''../'' @ rtrim b"
    by (rule trim_keeps) (simp_all add: js_literals is_whitespace_def)
  ultimately have "trim raw = ltrim a @ js ''..'' @ (js ''/'' @ rtrim b)"
    by (simp add: js_literals)
  then show ?thesis
    unfolding js_includes_iff by blast
qed

lemma trim_root:
  assumes "startsWith raw (js ''/'')"
  shows "startsWith (trim raw) (js ''/'')"
proof -
  from assms obtain r where "raw = [] @ js ''/'' @ r"
    by (auto simp: startsWith_iff)
  moreover have "trim ([] @ js ''/'' @ r) = ltrim [] @ js ''/'' @ rtrim r"
    by (rule trim_keeps) (simp_all add: js_literals is_whitespace_def)
  ultimately have "trim raw = js ''/'' @ rtrim r"
    by (simp add: ltrim_def)
  then show ?thesis
    unfolding startsWith_iff by blast
qed

lemma trim_member:
  assumes "c \<in> set raw" "\<not> is_whitespace c"
  shows "c \<in> set (trim raw)"
proof -
  from assms(1) obtain a b where "raw = a @ [c] @ b"
    by (auto simp: in_set_conv_decomp)
  moreover have "trim (a @ [c] @ b) = ltrim a @ [c] @ rtrim b"
    by (rule trim_keeps) (simp_all add: assms(2))
  ultimately show ?thesis by simp
qed

lemmas eval_string = js_def cu_def trim_def ltrim_def rtrim_def is_whitespace_def
lemmas eval_filter = validate_filename_def sanitizeFilename_def SAFE_FILENAME_test_def safe_char_def

subsection \<open>The filter and the validation chain\<close>

lemma sanitize_unsafe:
  "\<not> list_all safe_char v \<Longrightarrow> sanitizeFilename v = Inl IllegalCharacters"
  by (simp add: sanitizeFilename_def SAFE_FILENAME_test_def)

lemma sanitize_dotdot:
  "js_includes v (js ''..'') \<Longrightarrow>
     sanitizeFilename v = Inl IllegalCharacters \<or> sanitizeFilename v = Inl PathTraversalAttempt"
  by (simp add: sanitizeFilename_def)

lemma sanitize_root:
  "startsWith v (js ''/'') \<Longrightarrow> isl (sanitizeFilename v)"
  by (simp add: sanitizeFilename_def)

lemma sanitize_Inr:
  "sanitizeFilename v = Inr w \<longleftrightarrow>
     w = v \<and> v \<noteq> [] \<and> list_all safe_char v \<and> \<not> js_includes v (js ''..'') \<and> \<not> startsWith v (js ''/'')"
  by (auto simp: sanitizeFilename_def SAFE_FILENAME_test_def)

lemma validate_filename_Nil:
  "validate_filename v = [] \<longleftrightarrow> sanitizeFilename v = Inr v"
  by (auto simp: validate_filename_def sanitize_Inr split: sum.splits)
    (auto simp: sanitizeFilename_def SAFE_FILENAME_test_def split: if_splits)

lemma validate_filename_Thrown:
  "sanitizeFilename v = Inl err \<Longrightarrow> Thrown err \<in> set (validate_filename v)"
  by (simp add: validate_filename_def)

lemma read_handler_400:
  "validate_filename (trim raw) \<noteq> [] \<Longrightarrow>
     read_handler e (Some raw) = (Status400 (validate_filename (trim raw)), [])"
  by (simp add: read_handler_def Let_def)

subsection \<open>Decoding a string without escapes\<close>

lemma unescape_plain:
  "cu CHR ''%'' \<notin> set v \<Longrightarrow> unescape v = Some (map Lit v)"
  by (induction v) auto

lemma assemble_plain: "assemble (map Lit v) = Some v"
  by (induction v) auto

lemma decode_plain:
  "cu CHR ''%'' \<notin> set v \<Longrightarrow> decodeURIComponent v = Some v"
  by (simp add: decodeURIComponent_def unescape_plain assemble_plain)

subsection \<open>The shape of a resolved path\<close>

lemma sep_eq: "sep = [cu CHR ''/'']"
  by (simp add: sep_def js_def)

lemma split_sep_not_Nil: "split_sep p \<noteq> []"
  by (induction p) (auto split: list.splits)

lemma split_sep_free: "s \<in> set (split_sep p) \<Longrightarrow> cu CHR ''/'' \<notin> set s"
proof (induction p arbitrary: s)
  case Nil
  then show ?case by simp
next
  case (Cons c p)
  obtain t ts where t: "split_sep p = t # ts"
    using split_sep_not_Nil [of p] by (cases "split_sep p") auto
  show ?case
  proof (cases "c = cu CHR ''/''")
    case True
    with Cons show ?thesis by auto
  next
    case False
    with Cons.prems t have "s = c # t \<or> s \<in> set ts" by simp
    then show ?thesis using Cons.IH t False by auto
  qed
qed

lemma split_sep_append:
  "split_sep (a @ cu CHR ''/'' # b) = split_sep a @ split_sep b"
proof (induction a)
  case Nil
  show ?case by simp
next
  case (Cons c a)
  obtain s ss where "split_sep a = s # ss"
    using split_sep_not_Nil [of a] by (cases "split_sep a") auto
  with Cons show ?case by simp
qed

lemma split_sep_plain: "cu CHR ''/'' \<notin> set s \<Longrightarrow> split_sep s = [s]"
  by (induction s) auto

lemma split_join:
  "segs \<noteq> [] \<Longrightarrow> \<forall>s \<in> set segs. cu CHR ''/'' \<notin> set s \<Longrightarrow> split_sep (join_sep segs) = segs"
proof (induction segs rule: join_sep.induct)
  case 1
  then show ?case by simp
next
  case (2 s)
  then show ?case by (simp add: split_sep_plain)
next
  case (3 s t ss)
  have "split_sep (s @ cu CHR ''/'' # join_sep (t # ss)) = split_sep s @ split_sep (join_sep (t # ss))"
    by (rule split_sep_append)
  then show ?case using 3 by (simp add: split_sep_plain sep_eq)
qed

lemma push_segment_segments:
  assumes "\<forall>x \<in> set res. segment x" "cu CHR ''/'' \<notin> set s"
  shows "\<forall>x \<in> set (push_segment a res s). segment x"
proof -
  have "s \<noteq> [] \<longrightarrow> segment s" using assms(2) by (simp add: segment_def)
  then show ?thesis
    using assms(1) by (cases res) (auto simp: push_segment_def)
qed

lemma foldl_push_segments:
  "\<forall>x \<in> set res. segment x \<Longrightarrow> \<forall>s \<in> set ss. cu CHR ''/'' \<notin> set s \<Longrightarrow>
     \<forall>x \<in> set (foldl (push_segment a) res ss). segment x"
proof (induction ss arbitrary: res)
  case Nil
  then show ?case by simp
next
  case (Cons s ss)
  have "\<forall>x \<in> set (push_segment a res s). segment x"
    using Cons.prems by (intro push_segment_segments) simp_all
  then show ?case using Cons.IH [of "push_segment a res s"] Cons.prems(2) by simp
qed

lemma path_resolve_shape:
  "\<exists>segs. (\<forall>s \<in> set segs. segment s) \<and>
     (path_resolve c args = sep @ join_sep segs
      \<or> (segs \<noteq> [] \<and> path_resolve c args = join_sep segs)
      \<or> path_resolve c args = js ''.'')"
proof -
  obtain rp ab where r: "resolve_loop (rev args @ [c]) [] = (rp, ab)"
    by (cases "resolve_loop (rev args @ [c]) []") auto
  define segs where "segs = rev (foldl (push_segment (\<not> ab)) [] (split_sep rp))"
  have seg: "\<forall>s \<in> set segs. segment s"
    unfolding segs_def set_rev by (rule foldl_push_segments) (auto simp: split_sep_free)
  have n: "normalizeString rp (\<not> ab) = join_sep segs"
    by (simp add: normalizeString_def segs_def)
  have "path_resolve c args = sep @ join_sep segs
      \<or> (segs \<noteq> [] \<and> path_resolve c args = join_sep segs)
      \<or> path_resolve c args = js ''.''"
  proof (cases ab)
    case True
    then show ?thesis using r n by (simp add: path_resolve_def)
  next
    case False
    have "join_sep segs = [] \<Longrightarrow> segs \<noteq> [] \<Longrightarrow> False"
      using seg by (cases segs rule: join_sep.cases) (auto simp: segment_def)
    then show ?thesis using False r n by (auto simp: path_resolve_def Let_def)
  qed
  with seg show ?thesis by blast
qed

lemma empty_segment:
  assumes "B \<noteq> []" "last B = cu CHR ''/'' \<or> rest = [] \<or> hd rest = cu CHR ''/''"
  shows "[] \<in> set (tl (split_sep (B @ cu CHR ''/'' # rest)))"
proof -
  obtain x xs where x: "split_sep B = x # xs"
    using split_sep_not_Nil [of B] by (cases "split_sep B") auto
  have tl: "tl (split_sep (B @ cu CHR ''/'' # rest)) = xs @ split_sep rest"
    by (simp add: split_sep_append x)
  from assms(2) consider "rest = []" | r where "rest = cu CHR ''/'' # r" | "last B = cu CHR ''/''"
    by (cases rest) auto
  then show ?thesis
  proof cases
    case 1
    then show ?thesis unfolding tl by simp
  next
    case 2
    then show ?thesis unfolding tl by simp
  next
    case 3
    obtain B' where B': "B = B' @ [cu CHR ''/'']"
      using assms(1) 3 by (cases B rule: rev_cases) auto
    obtain y ys where y: "split_sep B' = y # ys"
      using split_sep_not_Nil [of B'] by (cases "split_sep B'") auto
    have "split_sep B = split_sep B' @ split_sep []"
      unfolding B' by (rule split_sep_append)
    then have "xs = ys @ [[]]" using x y by simp
    then show ?thesis unfolding tl by simp
  qed
qed

lemma path_resolve_not_Nil: "path_resolve c args \<noteq> []"
proof -
  obtain segs where "path_resolve c args = sep @ join_sep segs
      \<or> (segs \<noteq> [] \<and> path_resolve c args = join_sep segs)
      \<or> path_resolve c args = js ''.''" and seg: "\<forall>s \<in> set segs. segment s"
    using path_resolve_shape [of c args] by blast
  then show ?thesis
    by (cases segs rule: join_sep.cases) (auto simp: sep_eq js_def segment_def)
qed

lemma path_resolve_below:
  assumes p: "path_resolve c args = B @ sep @ rest" and B: "B \<noteq> []"
  shows "last B \<noteq> cu CHR ''/'' \<and> rest \<noteq> [] \<and> hd rest \<noteq> cu CHR ''/''"
proof (rule ccontr)
  assume "\<not> ?thesis"
  then have "last B = cu CHR ''/'' \<or> rest = [] \<or> hd rest = cu CHR ''/''" by blast
  with B have "[] \<in> set (tl (split_sep (B @ cu CHR ''/'' # rest)))" by (rule empty_segment)
  then have e: "[] \<in> set (tl (split_sep (path_resolve c args)))"
    by (simp add: p sep_eq)
  obtain segs where form: "path_resolve c args = sep @ join_sep segs
      \<or> (segs \<noteq> [] \<and> path_resolve c args = join_sep segs)
      \<or> path_resolve c args = js ''.''" and seg: "\<forall>s \<in> set segs. segment s"
    using path_resolve_shape [of c args] by blast
  have free: "\<forall>s \<in> set segs. cu CHR ''/'' \<notin> set s" and ne: "[] \<notin> set segs"
    using seg by (auto simp: segment_def)
  from form consider
      (root) "path_resolve c args = sep" "segs = []"
    | (abs) "path_resolve c args = [] @ cu CHR ''/'' # join_sep segs" "segs \<noteq> []"
    | (rel) "path_resolve c args = join_sep segs" "segs \<noteq> []"
    | (dot) "path_resolve c args = js ''.''"
    by (cases "segs = []") (auto simp: sep_eq)
  then show False
  proof cases
    case root
    then show False using p B by (cases B) (simp_all add: sep_eq)
  next
    case abs
    have "split_sep (path_resolve c args) = split_sep [] @ split_sep (join_sep segs)"
      unfolding abs(1) by (rule split_sep_append)
    then have "tl (split_sep (path_resolve c args)) = segs"
      using split_join [OF abs(2) free] by simp
    with e ne show False by simp
  next
    case rel
    have "split_sep (path_resolve c args) = segs"
      using split_join [OF rel(2) free] rel(1) by simp
    with e ne show False by (cases segs) auto
  next
    case dot
    then show False using p B by (cases B) (simp_all add: sep_eq js_def)
  qed
qed

subsection \<open>The handler\<close>

lemma read_handler_valid:
  "validate_filename (trim raw) = [] \<Longrightarrow>
     read_handler e (Some raw) =
       (if startsWith (resolveSafe (cwd e) (BASE_DIR e) (trim raw)) (BASE_DIR e @ sep)
        then serve_file e (resolveSafe (cwd e) (BASE_DIR e) (trim raw)) else (Status403, []))"
  by (simp add: read_handler_def Let_def)

lemma BASE_DIR_not_Nil: "BASE_DIR e \<noteq> []"
  by (simp add: BASE_DIR_def path_resolve_not_Nil)

lemma resolveSafe_below:
  assumes "startsWith (resolveSafe c (BASE_DIR e) v) (BASE_DIR e @ sep)"
  shows "\<exists>rest. rest \<noteq> [] \<and> hd rest \<noteq> cu CHR ''/''
           \<and> resolveSafe c (BASE_DIR e) v = BASE_DIR e @ sep @ rest"
    and "last (BASE_DIR e) \<noteq> cu CHR ''/''"
proof -
  from assms obtain rest where r: "resolveSafe c (BASE_DIR e) v = BASE_DIR e @ sep @ rest"
    by (auto simp: startsWith_iff)
  then have "path_resolve c [BASE_DIR e, decode_or_keep v] = BASE_DIR e @ sep @ rest"
    by (simp add: resolveSafe_def)
  then have b: "last (BASE_DIR e) \<noteq> cu CHR ''/'' \<and> rest \<noteq> [] \<and> hd rest \<noteq> cu CHR ''/''"
    using BASE_DIR_not_Nil by (rule path_resolve_below)
  then show "last (BASE_DIR e) \<noteq> cu CHR ''/''" by simp
  from b r show "\<exists>rest. rest \<noteq> [] \<and> hd rest \<noteq> cu CHR ''/''
           \<and> resolveSafe c (BASE_DIR e) v = BASE_DIR e @ sep @ rest" by blast
qed

lemma serve_file_cases:
  "serve_file e p = (Status404, [ExistsSync p])
   \<or> serve_file e p = (Status500, [ExistsSync p, ReadFileSync p])
   \<or> (\<exists>content. serve_file e p = (Status200 p content, [ExistsSync p, ReadFileSync p]))"
  by (auto simp: serve_file_def split: option.splits node.splits)

subsection \<open>The sample installation\<close>

lemma sample_BASE_DIR: "BASE_DIR sample_env = js ''/srv/app/files''"
  by (simp add: BASE_DIR_def sample_env_def path_resolve_def normalizeString_def push_segment_def sep_def js_def cu_def)

lemma sample_dot: "resolveSafe (cwd sample_env) (BASE_DIR sample_env) (js ''.'') = BASE_DIR sample_env"
  unfolding sample_BASE_DIR
  by (simp add: sample_env_def resolveSafe_def decode_or_keep_def decodeURIComponent_def path_resolve_def normalizeString_def push_segment_def sep_def js_def cu_def)

lemma sample_a_dotdot: "resolveSafe (cwd sample_env) (BASE_DIR sample_env) (js ''a/..'') = BASE_DIR sample_env"
  unfolding sample_BASE_DIR
  by (simp add: sample_env_def resolveSafe_def decode_or_keep_def decodeURIComponent_def path_resolve_def normalizeString_def push_segment_def sep_def js_def cu_def)

lemma sample_hello:
  "resolveSafe (cwd sample_env) (BASE_DIR sample_env) (js ''hello.txt'') =
     js ''/srv/app/files/hello.txt''"
  unfolding sample_BASE_DIR
  by (simp add: sample_env_def resolveSafe_def decode_or_keep_def decodeURIComponent_def
      path_resolve_def normalizeString_def push_segment_def sep_def js_def cu_def)

lemma sample_hello_file:
  "files sample_env (js ''/srv/app/files/hello.txt'') = Some (File hello_content)"
  by (simp add: sample_env_def js_def cu_def)

subsection \<open>The claims about the path guard\<close>

text \<open>
  C1. A filename that contains \<^verbatim>\<open>../\<close>, that begins with the separator of an
  absolute path, or that contains a percent sign, and so every percent-encoded traversal
  sequence, is answered by \<^verbatim>\<open>/read\<close> with the 400 of the validation chain, and
  the handler has made no call to the file system.
\<close>

theorem C1_read_rejects_before_any_read:
  assumes "js_includes raw (js ''../'') \<or> startsWith raw (js ''/'') \<or> cu CHR ''%'' \<in> set raw"
  shows "read_handler e (Some raw) = (Status400 (validate_filename (trim raw)), [])
         \<and> validate_filename (trim raw) \<noteq> []"
proof -
  have "sanitizeFilename (trim raw) \<noteq> Inr (trim raw)"
    using assms
  proof (elim disjE)
    assume "js_includes raw (js ''../'')"
    then have "js_includes (trim raw) (js ''..'')" by (rule trim_dotdot)
    then show ?thesis using sanitize_dotdot [of "trim raw"] by auto
  next
    assume "startsWith raw (js ''/'')"
    then have "startsWith (trim raw) (js ''/'')" by (rule trim_root)
    then show ?thesis using sanitize_root [of "trim raw"] by auto
  next
    assume "cu CHR ''%'' \<in> set raw"
    then have "cu CHR ''%'' \<in> set (trim raw)"
      by (rule trim_member) (simp add: is_whitespace_def cu_values)
    then have "\<not> list_all safe_char (trim raw)"
      using safe_char_not_percent by (auto simp: list_all_iff)
    then show ?thesis using sanitize_unsafe [of "trim raw"] by auto
  qed
  then have "validate_filename (trim raw) \<noteq> []"
    by (simp add: validate_filename_Nil)
  then show ?thesis using read_handler_400 by simp
qed

theorem C1_read_rejects_before_any_read_witness:
  "js_includes (js ''../../etc/passwd'') (js ''../'') \<and>
   read_handler sample_env (Some (js ''../../etc/passwd'')) =
     (Status400 [Thrown PathTraversalAttempt], [])"
  using C1_read_rejects_before_any_read [of "js ''../../etc/passwd''" sample_env]
  by (simp add: eval_string eval_filter)

text \<open>
  C7. \<^verbatim>\<open>sanitizeFilename\<close> throws on every value with a character outside the
  allow-list, on every value that contains \<^verbatim>\<open>..\<close> and on every value that begins
  with the separator. It is given the field as the chain has trimmed it, not decoded and
  not resolved, and whatever it throws there is answered with the 400 that carries the
  error, with no call to the file system; the answer is not the 403 of the containment
  check.
\<close>

theorem C7_filter_rejects_as_validation_failure:
  "(\<not> list_all safe_char v1 \<longrightarrow> sanitizeFilename v1 = Inl IllegalCharacters)
   \<and> (js_includes v2 (js ''..'') \<longrightarrow>
        sanitizeFilename v2 = Inl IllegalCharacters
        \<or> sanitizeFilename v2 = Inl PathTraversalAttempt)
   \<and> (startsWith v3 (js ''/'') \<longrightarrow> isl (sanitizeFilename v3))
   \<and> (sanitizeFilename (trim raw) = Inl err \<longrightarrow>
        read_handler e (Some raw) = (Status400 (validate_filename (trim raw)), [])
        \<and> Thrown err \<in> set (validate_filename (trim raw))
        \<and> fst (read_handler e (Some raw)) \<noteq> Status403)"
proof (intro conjI impI)
  assume "\<not> list_all safe_char v1"
  then show "sanitizeFilename v1 = Inl IllegalCharacters" by (rule sanitize_unsafe)
next
  assume "js_includes v2 (js ''..'')"
  then show "sanitizeFilename v2 = Inl IllegalCharacters
    \<or> sanitizeFilename v2 = Inl PathTraversalAttempt" by (rule sanitize_dotdot)
next
  assume "startsWith v3 (js ''/'')"
  then show "isl (sanitizeFilename v3)" by (rule sanitize_root)
next
  assume a: "sanitizeFilename (trim raw) = Inl err"
  then have "validate_filename (trim raw) \<noteq> []" by (simp add: validate_filename_Nil)
  then show r: "read_handler e (Some raw) = (Status400 (validate_filename (trim raw)), [])"
    by (rule read_handler_400)
  show "Thrown err \<in> set (validate_filename (trim raw))"
    using a by (rule validate_filename_Thrown)
  show "fst (read_handler e (Some raw)) \<noteq> Status403" by (simp add: r)
qed

theorem C7_filter_rejects_as_validation_failure_witness:
  "\<not> list_all safe_char (js ''a b'') \<and> sanitizeFilename (js ''a b'') = Inl IllegalCharacters
   \<and> js_includes (js ''a/../b'') (js ''..'')
   \<and> sanitizeFilename (js ''a/../b'') = Inl PathTraversalAttempt
   \<and> startsWith (js ''/etc/passwd'') (js ''/'') \<and> isl (sanitizeFilename (js ''/etc/passwd''))
   \<and> sanitizeFilename (trim (js ''/etc/passwd'')) = Inl AbsolutePath
   \<and> read_handler sample_env (Some (js ''/etc/passwd'')) = (Status400 [Thrown AbsolutePath], [])"
  using C7_filter_rejects_as_validation_failure
    [of "js ''a b''" "js ''a/../b''" "js ''/etc/passwd''" "js ''/etc/passwd''" AbsolutePath sample_env]
  by (simp add: eval_string eval_filter)

text \<open>
  C9. A value that \<^verbatim>\<open>sanitizeFilename\<close> returns has no percent sign, so
  \<^verbatim>\<open>decodeURIComponent\<close> returns it as it is: \<^verbatim>\<open>resolveSafe\<close> resolves the
  very string that was checked, and that string passes the filter again.
\<close>

theorem C9_decoding_is_identity_after_filter:
  assumes "sanitizeFilename v = Inr w"
  shows "w = v \<and> cu CHR ''%'' \<notin> set v \<and> decodeURIComponent v = Some v
         \<and> decode_or_keep v = v \<and> sanitizeFilename (decode_or_keep v) = Inr v
         \<and> resolveSafe c b v = path_resolve c [b, v]"
proof -
  from assms have w: "w = v" and safe: "list_all safe_char v"
    by (simp_all add: sanitize_Inr)
  from safe have np: "cu CHR ''%'' \<notin> set v"
    using safe_char_not_percent by (auto simp: list_all_iff)
  then have d: "decodeURIComponent v = Some v" by (rule decode_plain)
  then have k: "decode_or_keep v = v" by (simp add: decode_or_keep_def)
  show ?thesis using assms w np d k by (simp add: resolveSafe_def)
qed

theorem C9_decoding_is_identity_after_filter_witness:
  "sanitizeFilename (js ''notes/readme.md'') = Inr (js ''notes/readme.md'')
   \<and> cu CHR ''%'' \<notin> set (js ''notes/readme.md'')
   \<and> decodeURIComponent (js ''notes/readme.md'') = Some (js ''notes/readme.md'')
   \<and> decode_or_keep (js ''notes/readme.md'') = js ''notes/readme.md''"
  using C9_decoding_is_identity_after_filter [of "js ''notes/readme.md''" "js ''notes/readme.md''"]
  by (simp add: eval_string eval_filter)

text \<open>
  C6. A request to \<^verbatim>\<open>/read\<close> ends in one of three ways. The validation chain has
  errors and the answer is its 400. Or the chain has none, the resolved path does not begin
  with \<^verbatim>\<open>BASE_DIR + path.sep\<close>, and the answer is the 403 with no call to the file
  system. Or the chain has none, the resolved path is \<^verbatim>\<open>BASE_DIR\<close>, which does not
  end in a separator, then one separator, then a rest that is not empty and does not begin
  with a separator, and only then does the handler go on to the file. So the 403 comes
  after the filters have passed, and nothing is read from a path that the check has not
  passed.
\<close>

theorem C6_containment_check_is_final_gate:
  "(validate_filename (trim raw) \<noteq> []
      \<and> read_handler e (Some raw) = (Status400 (validate_filename (trim raw)), []))
   \<or> (validate_filename (trim raw) = []
      \<and> \<not> startsWith (resolveSafe (cwd e) (BASE_DIR e) (trim raw)) (BASE_DIR e @ sep)
      \<and> read_handler e (Some raw) = (Status403, []))
   \<or> (validate_filename (trim raw) = []
      \<and> (\<exists>rest. rest \<noteq> [] \<and> hd rest \<noteq> cu CHR ''/''
            \<and> resolveSafe (cwd e) (BASE_DIR e) (trim raw) = BASE_DIR e @ sep @ rest)
      \<and> last (BASE_DIR e) \<noteq> cu CHR ''/''
      \<and> read_handler e (Some raw) = serve_file e (resolveSafe (cwd e) (BASE_DIR e) (trim raw))
      \<and> fst (read_handler e (Some raw)) \<noteq> Status403)"
proof (cases "validate_filename (trim raw) = []")
  case False
  then show ?thesis using read_handler_400 [of raw e] by simp
next
  case True
  note valid = this
  show ?thesis
  proof (cases "startsWith (resolveSafe (cwd e) (BASE_DIR e) (trim raw)) (BASE_DIR e @ sep)")
    case False
    then show ?thesis using valid read_handler_valid [of raw e] by simp
  next
    case True
    have r: "read_handler e (Some raw) = serve_file e (resolveSafe (cwd e) (BASE_DIR e) (trim raw))"
      using True valid read_handler_valid [of raw e] by simp
    have "fst (serve_file e (resolveSafe (cwd e) (BASE_DIR e) (trim raw))) \<noteq> Status403"
      using serve_file_cases [of e "resolveSafe (cwd e) (BASE_DIR e) (trim raw)"] by auto
    then show ?thesis
      using valid r resolveSafe_below [OF True] by simp
  qed
qed

theorem C6_containment_check_is_final_gate_witness:
  "validate_filename (trim (js ''hello.txt'')) = []
   \<and> resolveSafe (cwd sample_env) (BASE_DIR sample_env) (trim (js ''hello.txt'')) =
       BASE_DIR sample_env @ sep @ js ''hello.txt''
   \<and> last (BASE_DIR sample_env) \<noteq> cu CHR ''/''
   \<and> read_handler sample_env (Some (js ''hello.txt'')) =
       (Status200 (js ''/srv/app/files/hello.txt'') hello_content,
        [ExistsSync (js ''/srv/app/files/hello.txt''),
         ReadFileSync (js ''/srv/app/files/hello.txt'')])"
proof -
  have t: "trim (js ''hello.txt'') = js ''hello.txt''"
    by (simp add: eval_string)
  have v: "validate_filename (js ''hello.txt'') = []"
    by (simp add: eval_string eval_filter)
  have p: "js ''/srv/app/files/hello.txt'' = js ''/srv/app/files'' @ sep @ js ''hello.txt''"
    by (simp add: js_def sep_def)
  have f: "serve_file sample_env (js ''/srv/app/files/hello.txt'') =
       (Status200 (js ''/srv/app/files/hello.txt'') hello_content,
        [ExistsSync (js ''/srv/app/files/hello.txt''),
         ReadFileSync (js ''/srv/app/files/hello.txt'')])"
    by (simp add: serve_file_def sample_hello_file)
  have s: "startsWith (js ''/srv/app/files/hello.txt'') (BASE_DIR sample_env @ sep)"
    by (simp add: sample_BASE_DIR js_def cu_def sep_def)
  have "read_handler sample_env (Some (js ''hello.txt'')) =
          serve_file sample_env (js ''/srv/app/files/hello.txt'')
        \<and> last (BASE_DIR sample_env) \<noteq> cu CHR ''/''"
    using C6_containment_check_is_final_gate [of "js ''hello.txt''" sample_env] s
    unfolding t sample_hello by (simp add: v)
  then show ?thesis
    unfolding t sample_hello using v f p by (simp add: sample_BASE_DIR)
qed

text \<open>
  C10, as amended. A filename that passes the validation chain and resolves to
  \<^verbatim>\<open>BASE_DIR\<close> itself, as \<^verbatim>\<open>.\<close> does, is answered with the 403 of the containment
  check and no call to the file system. Whatever the field, the handler makes no call to
  the file system on \<^verbatim>\<open>BASE_DIR\<close> and does not answer with its content.
\<close>

theorem C10_base_directory_is_not_served:
  "(validate_filename (trim raw) = []
      \<and> resolveSafe (cwd e) (BASE_DIR e) (trim raw) = BASE_DIR e
      \<longrightarrow> read_handler e (Some raw) = (Status403, []))
   \<and> ExistsSync (BASE_DIR e) \<notin> set (snd (read_handler e field))
   \<and> ReadFileSync (BASE_DIR e) \<notin> set (snd (read_handler e field))
   \<and> fst (read_handler e field) \<noteq> Status200 (BASE_DIR e) content"
proof -
  have never: "\<not> startsWith (BASE_DIR e) (BASE_DIR e @ sep)"
    by (simp add: startsWith_iff sep_eq)
  have first: "validate_filename (trim raw) = []
      \<and> resolveSafe (cwd e) (BASE_DIR e) (trim raw) = BASE_DIR e
      \<longrightarrow> read_handler e (Some raw) = (Status403, [])"
    using never read_handler_valid [of raw e] by simp
  have rest: "ExistsSync (BASE_DIR e) \<notin> set (snd (read_handler e field))
   \<and> ReadFileSync (BASE_DIR e) \<notin> set (snd (read_handler e field))
   \<and> fst (read_handler e field) \<noteq> Status200 (BASE_DIR e) content"
  proof (cases field)
    case None
    then show ?thesis by (simp add: read_handler_def)
  next
    case (Some r)
    show ?thesis
    proof (cases "validate_filename (trim r) = []")
      case False
      then show ?thesis using read_handler_400 [of r e] Some by simp
    next
      case True
      define p where "p = resolveSafe (cwd e) (BASE_DIR e) (trim r)"
      show ?thesis
      proof (cases "startsWith p (BASE_DIR e @ sep)")
        case False
        then show ?thesis using True read_handler_valid [of r e] Some by (simp add: p_def)
      next
        case yes: True
        then have "p \<noteq> BASE_DIR e" using never by auto
        moreover have "read_handler e field = serve_file e p"
          using yes True read_handler_valid [of r e] Some by (simp add: p_def)
        ultimately show ?thesis using serve_file_cases [of e p] by auto
      qed
    qed
  qed
  from first rest show ?thesis by blast
qed

theorem C10_base_directory_is_not_served_witness:
  "validate_filename (trim (js ''.'')) = []
   \<and> resolveSafe (cwd sample_env) (BASE_DIR sample_env) (trim (js ''.'')) = BASE_DIR sample_env
   \<and> read_handler sample_env (Some (js ''.'')) = (Status403, [])"
proof -
  have t: "trim (js ''.'') = js ''.''"
    by (simp add: eval_string)
  have v: "validate_filename (js ''.'') = []"
    by (simp add: eval_string eval_filter)
  show ?thesis
    using C10_base_directory_is_not_served [of "js ''.''" sample_env]
    unfolding t by (simp add: v sample_dot)
qed

text \<open>
  The claim as it stands fails at \<^verbatim>\<open>a/..\<close>: the name resolves to \<^verbatim>\<open>BASE_DIR\<close>,
  and the filter throws on it, so that the answer is the 400 and not the 403.
\<close>

theorem C10_counterexample:
  "resolveSafe (cwd sample_env) (BASE_DIR sample_env) (js ''a/..'') = BASE_DIR sample_env
   \<and> sanitizeFilename (js ''a/..'') = Inl PathTraversalAttempt
   \<and> read_handler sample_env (Some (js ''a/..'')) =
       (Status400 [Thrown PathTraversalAttempt], [])"
proof -
  have t: "trim (js ''a/..'') = js ''a/..''"
    by (simp add: eval_string)
  have s: "sanitizeFilename (js ''a/..'') = Inl PathTraversalAttempt"
    by (simp add: eval_string eval_filter)
  have "js ''a/..'' \<noteq> []"
    by (simp add: js_def)
  then have "validate_filename (js ''a/..'') = [Thrown PathTraversalAttempt]"
    by (simp add: validate_filename_def s)
  then have "read_handler sample_env (Some (js ''a/..'')) =
       (Status400 [Thrown PathTraversalAttempt], [])"
    using read_handler_400 [of "js ''a/..''" sample_env] by (simp add: t)
  with s sample_a_dotdot show ?thesis by simp
qed

section \<open>Properties of the session manager\<close>

subsection \<open>Tokens\<close>

lemma length_to_hex: "length (to_hex k n) = k"
  by (induction k arbitrary: n) auto

lemma length_token_of: "length (token_of w) = 64"
  by (simp add: token_of_def length_to_hex)

lemma token_of_not_Nil: "token_of w \<noteq> []"
  using length_token_of [of w] by auto

lemma proto_keys_short: "k \<in> set proto_keys \<Longrightarrow> length k < 64"
  by (auto simp: proto_keys_def js_def)

lemma token_of_not_inherited: "token_of w \<notin> set proto_keys"
  using proto_keys_short [of "token_of w"] by (auto simp: length_token_of)

lemma token_of_not_expires: "token_of w \<noteq> js ''expires''"
proof
  assume "token_of w = js ''expires''"
  then have "length (token_of w) = length (js ''expires'')" by simp
  then show False by (simp add: length_token_of js_def)
qed

lemma last_token_of: "last (token_of w) = hex_digit (unat w mod 16)"
proof -
  have "(64::nat) = Suc 63" by simp
  then have "to_hex 64 (unat w) = to_hex 63 (unat w div 16) @ [hex_digit (unat w mod 16)]"
    by (simp only: to_hex.simps)
  then show ?thesis by (simp add: token_of_def)
qed

lemma token_of_1_2: "token_of 2 \<noteq> token_of 1"
proof
  assume "token_of 2 = token_of 1"
  then have "last (token_of 2) = last (token_of 1)" by simp
  then show False by (simp add: last_token_of hex_digit_def)
qed

subsection \<open>What the table finds\<close>

lemma lookup_Own: "sessions st t = Some s \<Longrightarrow> lookup st t = Own s"
  by (simp add: lookup_def)

lemma lookup_Own_iff: "lookup st t = Own s \<longleftrightarrow> sessions st t = Some s"
  by (simp add: lookup_def split: option.splits)

lemma lookup_plain:
  "sessions st t = None \<Longrightarrow> t \<notin> set proto_keys \<Longrightarrow> t \<noteq> js ''expires'' \<Longrightarrow>
     lookup st t = Undefined"
  by (simp add: lookup_def)

lemma lookup_token_of:
  "sessions st (token_of w) = None \<Longrightarrow> lookup st (token_of w) = Undefined"
  by (rule lookup_plain) (simp_all add: token_of_not_inherited token_of_not_expires)

lemma not_truthy_absent: "\<not> truthy (lookup st t) \<Longrightarrow> sessions st t = None"
  by (cases "sessions st t") (simp_all add: lookup_def)

subsection \<open>The session table under the operations\<close>

lemma sessions_delete_session:
  "sessions (delete_session st t) = (sessions st)(t := None)"
  by (simp add: delete_session_def)

lemma sessions_createSession:
  "sessions (snd (createSession st uid now w)) =
     (sessions st)(token_of w \<mapsto> \<lparr>userId = uid, expires = now + TTL\<rparr>)"
  by (simp add: createSession_def Let_def)

lemma fst_createSession: "fst (createSession st uid now w) = token_of w"
  by (simp add: createSession_def Let_def)

lemma fst_rotateSession: "fst (rotateSession st old uid now w) = token_of w"
  by (simp add: rotateSession_def fst_createSession)

lemma rotateSession_old:
  assumes "token_of w \<noteq> old" "old \<noteq> []"
  shows "sessions (snd (rotateSession st (Some old) uid now w)) old = None"
proof (cases "truthy (lookup st old)")
  case True
  then show ?thesis
    using assms by (simp add: rotateSession_def sessions_createSession sessions_delete_session)
next
  case False
  then have "sessions st old = None" by (rule not_truthy_absent)
  then show ?thesis
    using assms False by (simp add: rotateSession_def sessions_createSession)
qed

text \<open>
  A token that is not in the table and that no login draws stays out of the table.
\<close>

lemma rotateSession_absent:
  assumes "sessions st t = None" "token_of w \<noteq> t"
  shows "sessions (snd (rotateSession st cookie uid now w)) t = None"
  using assms
  by (auto simp: rotateSession_def sessions_createSession sessions_delete_session
      split: option.splits)

lemma api_login_state:
  "fst (snd (api_login compare h st name password cookie now w)) = st
   \<or> (\<exists>uid. fst (snd (api_login compare h st name password cookie now w)) =
         snd (rotateSession st cookie uid now w))"
proof (cases "findUser h name")
  case None
  then show ?thesis by (simp add: api_login_def)
next
  case (Some user)
  show ?thesis
  proof (cases password)
    case None
    then show ?thesis using Some by (simp add: api_login_def)
  next
    case (Some p)
    note p = this
    show ?thesis
    proof (cases "compare p (passwordHash user)")
      case False
      then show ?thesis using \<open>findUser h name = Some user\<close> p by (simp add: api_login_def)
    next
      case True
      have "fst (snd (api_login compare h st name password cookie now w)) =
              snd (rotateSession st cookie (user_id user) now w)"
        using \<open>findUser h name = Some user\<close> p True
        by (simp add: api_login_def split: prod.splits)
      then show ?thesis by blast
    qed
  qed
qed

lemma api_login_absent:
  assumes "sessions st t = None" "token_of w \<noteq> t"
  shows "sessions (fst (snd (api_login compare h st name password cookie now w))) t = None"
  using api_login_state [of compare h st name password cookie now w]
    assms rotateSession_absent [OF assms, of cookie _ now]
  by auto

lemma api_logout_absent:
  "sessions st t = None \<Longrightarrow> sessions (api_logout st cookie) t = None"
  by (auto simp: api_logout_def sessions_delete_session split: option.splits)

lemma requireAuth_absent:
  assumes "sessions st t = None"
  shows "sessions (snd (requireAuth st cookie now1 now2)) t = None"
proof (cases cookie)
  case None
  then show ?thesis using assms by (simp add: requireAuth_def)
next
  case (Some token)
  show ?thesis
  proof (cases "lookup st token")
    case Undefined
    then show ?thesis using assms Some by (simp add: requireAuth_def)
  next
    case (Own s)
    then have "token \<noteq> t" using assms by (auto simp: lookup_Own_iff)
    then show ?thesis using assms Some Own by (simp add: requireAuth_def sessions_delete_session)
  next
    case InheritedObject
    then show ?thesis using assms Some by (simp add: requireAuth_def sessions_delete_session)
  next
    case (InheritedNumber x)
    then show ?thesis using assms Some by (simp add: requireAuth_def sessions_delete_session)
  qed
qed

lemma snd_api_me: "snd (api_me h st cookie now1 now2) = snd (requireAuth st cookie now1 now2)"
  by (auto simp: api_me_def split: prod.splits auth_outcome.splits option.splits)

lemma serve_absent:
  assumes "sessions st t = None" "\<forall>w \<in> set (random_of r). token_of w \<noteq> t"
  shows "sessions (serve compare h st r) t = None"
proof (cases r)
  case (Login name password cookie now w)
  then show ?thesis using assms api_login_absent [of st t w] by simp
next
  case (Logout cookie)
  then show ?thesis using assms api_logout_absent by simp
next
  case (Me cookie now1 now2)
  then show ?thesis using assms requireAuth_absent by (simp add: snd_api_me)
qed

lemma run_absent:
  "sessions st t = None \<Longrightarrow> \<forall>r \<in> set rs. \<forall>w \<in> set (random_of r). token_of w \<noteq> t \<Longrightarrow>
     sessions (run compare h st rs) t = None"
proof (induction rs arbitrary: st)
  case Nil
  then show ?case by simp
next
  case (Cons r rs)
  have "sessions (serve compare h st r) t = None"
    using Cons.prems by (intro serve_absent) simp_all
  then show ?case using Cons.IH Cons.prems(2) by simp
qed

lemma requireAuth_Nil: "requireAuth st (Some []) now1 now2 = (Unauthorized False, st)"
  by (simp add: requireAuth_def)

lemma requireAuth_Undefined:
  "lookup st t = Undefined \<Longrightarrow> requireAuth st (Some t) now1 now2 = (Unauthorized False, st)"
  by (simp add: requireAuth_def)

lemma stored_tokens_64:
  assumes "sessions (run compare h empty_store rs) t = Some s"
  shows "length t = 64"
proof (rule ccontr)
  assume l: "length t \<noteq> 64"
  have "token_of w \<noteq> t" for w
    using l length_token_of [of w] by (cases "token_of w = t") simp_all
  then have fresh: "\<forall>r \<in> set rs. \<forall>w \<in> set (random_of r). token_of w \<noteq> t"
    by simp
  have "sessions empty_store t = None"
    by (simp add: empty_store_def)
  then have "sessions (run compare h empty_store rs) t = None"
    using fresh by (rule run_absent)
  with assms show False by simp
qed

subsection \<open>Login\<close>

lemma findUser_eq:
  "findUser h name =
     (if name = Some (js ''student'')
      then Some \<lparr>user_id = 1, username = js ''student'', passwordHash = h\<rparr> else None)"
  by (auto simp: findUser_def users_def)

lemma api_login_unknown:
  "name \<noteq> Some (js ''student'') \<Longrightarrow>
     api_login compare h st name password cookie now w = (INVALID, st, [])"
  by (simp add: api_login_def findUser_eq)

lemma api_login_wrong:
  "\<not> compare p h \<Longrightarrow>
     api_login compare h st (Some (js ''student'')) (Some p) cookie now w =
       (INVALID, st, [(Some p, h)])"
  by (simp add: api_login_def findUser_eq)

lemma api_login_rejected:
  "api_login compare h st (Some (js ''student'')) None cookie now w =
     (Rejected, st, [(None, h)])"
  by (simp add: api_login_def findUser_eq)

lemma rotateSession_pair:
  "rotateSession st cookie uid now w = (token_of w, snd (rotateSession st cookie uid now w))"
  using fst_rotateSession [of st cookie uid now w]
  by (cases "rotateSession st cookie uid now w") simp

lemma api_login_right:
  assumes "compare p h"
  shows "api_login compare h st (Some (js ''student'')) (Some p) cookie now w =
       (Success (token_of w), snd (rotateSession st cookie 1 now w), [(Some p, h)])"
proof -
  have "api_login compare h st (Some (js ''student'')) (Some p) cookie now w =
      (case rotateSession st cookie 1 now w of
         (newToken, st') \<Rightarrow> (Success newToken, st', [(Some p, h)]))"
    using assms by (simp add: api_login_def findUser_eq)
  also have "\<dots> = (Success (token_of w), snd (rotateSession st cookie 1 now w), [(Some p, h)])"
    by (subst rotateSession_pair) simp
  finally show ?thesis .
qed

text \<open>
  With a password that is a string, the answer is the success, when the name is that of
  the user and the comparison holds, and in every other case the one answer
  \<^verbatim>\<open>INVALID\<close>.
\<close>

lemma generic_failure_for_string_password:
  "fst (api_login compare h st name (Some p) cookie now w) =
     (if name = Some (js ''student'') \<and> compare p h then Success (token_of w) else INVALID)"
proof (cases "name = Some (js ''student'')")
  case False
  then show ?thesis by (simp add: api_login_unknown)
next
  case True
  then show ?thesis
    by (cases "compare p h") (simp_all add: api_login_wrong api_login_right)
qed

text \<open>Every successful login has gone through \<^verbatim>\<open>rotateSession\<close>.\<close>

lemma login_rotates:
  assumes "fst (api_login compare h st name password cookie now w) = Success tok"
  shows "rotateSession st cookie 1 now w =
           (tok, fst (snd (api_login compare h st name password cookie now w)))"
proof -
  have n: "name = Some (js ''student'')"
    using assms api_login_unknown [of name compare h st password cookie now w]
    by (cases "name = Some (js ''student'')") (simp_all add: INVALID_def)
  obtain p where p: "password = Some p"
    using assms n api_login_rejected [of compare h st cookie now w]
    by (cases password) simp_all
  have c: "compare p h"
    using assms n p api_login_wrong [of compare p h st cookie now w]
    by (cases "compare p h") (simp_all add: INVALID_def)
  have "api_login compare h st name password cookie now w =
       (Success (token_of w), snd (rotateSession st cookie 1 now w), [(Some p, h)])"
    using api_login_right [of compare p h st cookie now w] c n p by simp
  then show ?thesis
    using assms rotateSession_pair [of st cookie 1 now w] by simp
qed

subsection \<open>The examples\<close>

lemma sample_names:
  "js ''nobody'' \<noteq> js ''student''"
  "js ''letmein'' \<noteq> js ''password123''"
  "js ''password123'' \<noteq> js ''letmein''"
  by (simp_all add: js_def cu_def)

lemma sample_lookup:
  "sessions sample_store (token_of 1) = Some \<lparr>userId = 1, expires = 1000\<rparr>"
  "sessions sample_store (token_of 2) = None"
  using token_of_1_2 by (simp_all add: sample_store_def)

lemma constructor_inherited: "js ''constructor'' \<in> set proto_keys"
  by (simp add: proto_keys_def)

lemma constructor_not_token: "token_of w \<noteq> js ''constructor''"
  using token_of_not_inherited [of w] constructor_inherited by auto

lemma sample_login:
  "sessions (fst (snd (api_login plain_compare (js ''password123'') empty_store
      (Some (js ''student'')) (Some (js ''password123'')) None 0 1))) (token_of 1) =
     Some \<lparr>userId = 1, expires = TTL\<rparr>"
proof -
  have "plain_compare (js ''password123'') (js ''password123'')"
    by (simp add: plain_compare_def)
  then have "api_login plain_compare (js ''password123'') empty_store (Some (js ''student''))
      (Some (js ''password123'')) None 0 1 =
      (Success (token_of 1), snd (rotateSession empty_store None 1 0 1),
       [(Some (js ''password123''), js ''password123'')])"
    by (rule api_login_right)
  then show ?thesis
    by (simp add: rotateSession_def sessions_createSession)
qed

subsection \<open>The claims about the session manager\<close>

text \<open>
  Rotation, for every cookie value that the table never inherits, and so for every token
  that \<^verbatim>\<open>createSession\<close> has issued: once \<^verbatim>\<open>rotateSession\<close> has run on it,
  \<^verbatim>\<open>requireAuth\<close> answers 401 to it after any requests whatever, expired or not, as
  long as no later login draws the same 32 bytes again.
\<close>

lemma rotation_invalidates_old_token:
  assumes old: "old \<notin> set proto_keys" "old \<noteq> js ''expires''"
    and fresh: "token_of w \<noteq> old"
    and later: "\<forall>r \<in> set rs. \<forall>w' \<in> set (random_of r). token_of w' \<noteq> old"
  shows "fst (requireAuth (run compare h (snd (rotateSession st (Some old) uid now w)) rs)
            (Some old) now1 now2) = Unauthorized False"
proof (cases "old = []")
  case True
  then show ?thesis by (simp add: requireAuth_Nil)
next
  case False
  with fresh have "sessions (snd (rotateSession st (Some old) uid now w)) old = None"
    by (rule rotateSession_old)
  then have "sessions (run compare h (snd (rotateSession st (Some old) uid now w)) rs) old = None"
    using later by (rule run_absent)
  then have "lookup (run compare h (snd (rotateSession st (Some old) uid now w)) rs) old = Undefined"
    using old by (rule lookup_plain)
  then show ?thesis by (simp add: requireAuth_Undefined)
qed

text \<open>
  The name \<^verbatim>\<open>expires\<close> is not inherited at first. It is after one request with the
  cookie \<^verbatim>\<open>session=__proto__\<close>, which \<^verbatim>\<open>requireAuth\<close> lets through as well.
\<close>

lemma expires_found_after_proto_request:
  "fst (requireAuth empty_store (Some (js ''expires'')) 0 0) = Unauthorized False
   \<and> fst (requireAuth empty_store (Some (js ''__proto__'')) 0 0) = Next None
   \<and> fst (requireAuth (snd (requireAuth empty_store (Some (js ''__proto__'')) 0 0))
        (Some (js ''expires'')) 1 1) = Next None"
proof -
  have ne: "js ''expires'' \<noteq> []" "js ''__proto__'' \<noteq> []"
    by (simp_all add: js_def)
  have p: "js ''__proto__'' \<in> set proto_keys" "js ''expires'' \<notin> set proto_keys"
    by (simp_all add: proto_keys_def js_def cu_def)
  have 1: "requireAuth empty_store (Some (js ''__proto__'')) 0 0 =
      (Next None, empty_store\<lparr>inherited_expires := [js ''__proto__'' \<mapsto> TTL]\<rparr>)"
    by (simp add: requireAuth_def lookup_def inherited_expiry_def empty_store_def ne p)
  have 2: "lookup (empty_store\<lparr>inherited_expires := [js ''__proto__'' \<mapsto> TTL]\<rparr>) (js ''expires'')
      = InheritedNumber TTL"
    by (simp add: lookup_def empty_store_def p)
  have 3: "fst (requireAuth (empty_store\<lparr>inherited_expires := [js ''__proto__'' \<mapsto> TTL]\<rparr>)
      (Some (js ''expires'')) 1 1) = Next None"
  proof -
    have "TTL \<noteq> 0" "\<not> 1 > TTL" by (simp_all add: TTL_def)
    then show ?thesis by (simp add: requireAuth_def 2 ne)
  qed
  have 0: "fst (requireAuth empty_store (Some (js ''expires'')) 0 0) = Unauthorized False"
    by (simp add: requireAuth_def lookup_def empty_store_def ne p)
  show ?thesis by (simp add: 0 1 3)
qed

text \<open>
  C3. The claim fails for a cookie value that names an inherited property. A login with
  the cookie \<^verbatim>\<open>session=constructor\<close> succeeds and rotates: \<^verbatim>\<open>delete\<close> finds no
  property of the table itself to take away. \<^verbatim>\<open>requireAuth\<close> then finds the
  inherited function under that name, which has no \<^verbatim>\<open>expires\<close>, and calls
  \<^verbatim>\<open>next()\<close> with \<^verbatim>\<open>req.userId\<close> undefined.
\<close>

theorem C3_inherited_name_accepted_after_rotation:
  "fst (api_login plain_compare (js ''password123'') empty_store (Some (js ''student''))
          (Some (js ''password123'')) (Some (js ''constructor'')) 0 0) = Success (token_of 0)
   \<and> fst (requireAuth
            (fst (snd (api_login plain_compare (js ''password123'') empty_store
               (Some (js ''student'')) (Some (js ''password123''))
               (Some (js ''constructor'')) 0 0)))
            (Some (js ''constructor'')) 1 1) = Next None"
proof -
  have ne: "js ''constructor'' \<noteq> []" by (simp add: js_def)
  have f: "lookup empty_store (js ''constructor'') = InheritedObject"
    by (simp add: lookup_def empty_store_def constructor_inherited)
  have r: "snd (rotateSession empty_store (Some (js ''constructor'')) 1 0 0) =
             snd (createSession empty_store 1 0 0)"
    by (simp add: rotateSession_def f ne delete_session_def empty_store_def)
  have l: "api_login plain_compare (js ''password123'') empty_store (Some (js ''student''))
          (Some (js ''password123'')) (Some (js ''constructor'')) 0 0 =
       (Success (token_of 0), snd (createSession empty_store 1 0 0),
        [(Some (js ''password123''), js ''password123'')])"
    using api_login_right [of plain_compare "js ''password123''" "js ''password123''"]
    by (simp add: plain_compare_def r)
  have "sessions (snd (createSession empty_store 1 0 0)) (js ''constructor'') = None"
    using constructor_not_token [of 0]
    by (simp add: sessions_createSession empty_store_def)
  then have "lookup (snd (createSession empty_store 1 0 0)) (js ''constructor'') = InheritedObject"
    by (simp add: lookup_def constructor_inherited)
  moreover have "inherited_expiry (snd (createSession empty_store 1 0 0)) (js ''constructor'') = None"
    by (simp add: inherited_expiry_def createSession_def Let_def empty_store_def)
  ultimately have "fst (requireAuth (snd (createSession empty_store 1 0 0))
            (Some (js ''constructor'')) 1 1) = Next None"
    by (simp add: requireAuth_def ne)
  with l show ?thesis by simp
qed

text \<open>
  C8. The claim fails for a login under the name of the user with no password in the
  body: \<^verbatim>\<open>bcrypt.compare\<close> is called and rejects, nothing catches it, and the handler
  ends without the generic answer. The same body under a name that no user has is
  answered with the generic 401, so the two answers tell the names apart.
\<close>

theorem C8_missing_password_not_generic:
  "api_login plain_compare (js ''password123'') empty_store
      (Some (js ''student'')) None None 0 0 =
     (Rejected, empty_store, [(None, js ''password123'')])
   \<and> api_login plain_compare (js ''password123'') empty_store
      (Some (js ''nobody'')) None None 0 0 =
     (Failure401 (js ''Invalid username or password''), empty_store, [])"
  using api_login_rejected [of plain_compare "js ''password123''" empty_store None 0 0]
    api_login_unknown [of "Some (js ''nobody'')" plain_compare "js ''password123''"
      empty_store None None 0 0]
  by (simp add: sample_names INVALID_def)

text \<open>
  C2, as amended. A login under a name that no user has is answered with
  \<^verbatim>\<open>INVALID\<close>, the table is as it was, and \<^verbatim>\<open>bcrypt.compare\<close> has not been
  called. A login under the name of the user with a password that does not compare is
  answered with the same \<^verbatim>\<open>INVALID\<close>, after one call of \<^verbatim>\<open>bcrypt.compare\<close>.
\<close>

theorem C2_unknown_user_fails_without_comparison:
  "(findUser h name = None \<longrightarrow>
      api_login compare h st name password cookie now w = (INVALID, st, []))
   \<and> (findUser h name = Some u \<and> \<not> compare p (passwordHash u) \<longrightarrow>
      api_login compare h st name (Some p) cookie now w =
        (INVALID, st, [(Some p, passwordHash u)]))"
  by (simp add: api_login_def)

theorem C2_unknown_user_fails_without_comparison_witness:
  "findUser (js ''password123'') (Some (js ''nobody'')) = None
   \<and> api_login plain_compare (js ''password123'') empty_store
        (Some (js ''nobody'')) (Some (js ''letmein'')) None 0 0 = (INVALID, empty_store, [])
   \<and> findUser (js ''password123'') (Some (js ''student'')) =
        Some \<lparr>user_id = 1, username = js ''student'', passwordHash = js ''password123''\<rparr>
   \<and> \<not> plain_compare (js ''letmein'') (js ''password123'')
   \<and> api_login plain_compare (js ''password123'') empty_store
        (Some (js ''student'')) (Some (js ''letmein'')) None 0 0 =
        (INVALID, empty_store, [(Some (js ''letmein''), js ''password123'')])"
  using C2_unknown_user_fails_without_comparison
      [where h = "js ''password123''" and name = "Some (js ''nobody'')"
         and compare = plain_compare and st = empty_store
         and password = "Some (js ''letmein'')" and cookie = None and now = 0 and w = 0
         and p = "js ''letmein''"
         and u = "\<lparr>user_id = 1, username = js ''student'', passwordHash = js ''password123''\<rparr>"]
    C2_unknown_user_fails_without_comparison
      [where h = "js ''password123''" and name = "Some (js ''student'')"
         and compare = plain_compare and st = empty_store
         and password = "Some (js ''letmein'')" and cookie = None and now = 0 and w = 0
         and p = "js ''letmein''"
         and u = "\<lparr>user_id = 1, username = js ''student'', passwordHash = js ''password123''\<rparr>"]
  by (simp add: findUser_eq sample_names plain_compare_def)

text \<open>
  The claim as it stands fails at the name \<^verbatim>\<open>nobody\<close>: no user has it, and the
  login returns without a single call of the comparison.
\<close>

theorem C2_counterexample:
  "findUser (js ''password123'') (Some (js ''nobody'')) = None
   \<and> snd (snd (api_login plain_compare (js ''password123'') empty_store
        (Some (js ''nobody'')) (Some (js ''letmein'')) None 0 0)) = []"
  by (simp add: api_login_unknown findUser_eq sample_names)

text \<open>
  C5. A token that is in the table and has not expired at the first reading of the clock
  is let through with the user id stored for it, and its expiry becomes the second
  reading of the clock plus the thirty minutes. \<^verbatim>\<open>createSession\<close> stores the user id
  with the expiry of the clock plus the thirty minutes, under the token it returns.
  Every token in the table of a server that started empty has 64 characters, so none is
  the empty string.
\<close>

theorem C5_sliding_renewal:
  "(sessions st token = Some s \<and> token \<noteq> [] \<and> now1 \<le> expires s \<longrightarrow>
      requireAuth st (Some token) now1 now2 =
        (Next (Some (userId s)),
         st\<lparr>sessions := (sessions st)(token \<mapsto> s\<lparr>expires := now2 + TTL\<rparr>)\<rparr>))
   \<and> createSession st uid now w =
        (token_of w,
         st\<lparr>sessions := (sessions st)(token_of w \<mapsto> \<lparr>userId = uid, expires = now + TTL\<rparr>)\<rparr>)
   \<and> TTL = 1800000
   \<and> (sessions (run compare h empty_store rs) t = Some s' \<longrightarrow> length t = 64)"
  using stored_tokens_64 [of compare h rs t s'] lookup_Own [of st token s]
  by (simp add: requireAuth_def createSession_def Let_def TTL_def)

theorem C5_sliding_renewal_witness:
  "sessions sample_store (token_of 1) = Some \<lparr>userId = 1, expires = 1000\<rparr>
   \<and> token_of 1 \<noteq> [] \<and> (500::int) \<le> 1000
   \<and> requireAuth sample_store (Some (token_of 1)) 500 501 =
       (Next (Some 1),
        sample_store\<lparr>sessions :=
          (sessions sample_store)(token_of 1 \<mapsto> \<lparr>userId = 1, expires = 1800501\<rparr>)\<rparr>)
   \<and> sessions (run plain_compare (js ''password123'') empty_store
        [Login (Some (js ''student'')) (Some (js ''password123'')) None 0 1]) (token_of 1) =
       Some \<lparr>userId = 1, expires = TTL\<rparr>
   \<and> length (token_of 1) = 64"
  using C5_sliding_renewal [of sample_store "token_of 1" "\<lparr>userId = 1, expires = 1000\<rparr>"
      500 501 1 0 0 plain_compare "js ''password123''"
      "[Login (Some (js ''student'')) (Some (js ''password123'')) None 0 1]" "token_of 1"
      "\<lparr>userId = 1, expires = TTL\<rparr>"]
  by (simp add: sample_lookup token_of_not_Nil TTL_def sample_login)

text \<open>
  C4, as amended. A token that is in the table and has expired at the first reading of
  the clock is taken out of the table and answered with 401 and
  \<^verbatim>\<open>{ authenticated: false }\<close>, after the cookie has been cleared. A token of the
  form that \<^verbatim>\<open>createSession\<close> issues, 64 hexadecimal digits, that is not in the table
  is answered with the same status and body, and the cookie is left as it is.
\<close>

theorem C4_expired_token_deleted:
  "(sessions st token = Some s \<and> token \<noteq> [] \<and> now1 > expires s \<longrightarrow>
      requireAuth st (Some token) now1 now2 = (Unauthorized True, delete_session st token)
      \<and> sessions (delete_session st token) token = None)
   \<and> (sessions st (token_of w) = None \<longrightarrow>
      requireAuth st (Some (token_of w)) now1 now2 = (Unauthorized False, st))
   \<and> (sessions (run compare h empty_store rs) t = Some s' \<longrightarrow> length t = 64)"
  using stored_tokens_64 [of compare h rs t s'] lookup_Own [of st token s]
    lookup_token_of [of st w]
  by (simp add: requireAuth_def sessions_delete_session token_of_not_Nil)

theorem C4_expired_token_deleted_witness:
  "sessions sample_store (token_of 1) = Some \<lparr>userId = 1, expires = 1000\<rparr>
   \<and> token_of 1 \<noteq> [] \<and> (2000::int) > 1000
   \<and> requireAuth sample_store (Some (token_of 1)) 2000 2000 =
        (Unauthorized True, delete_session sample_store (token_of 1))
   \<and> sessions (delete_session sample_store (token_of 1)) (token_of 1) = None
   \<and> sessions sample_store (token_of 2) = None
   \<and> requireAuth sample_store (Some (token_of 2)) 2000 2000 = (Unauthorized False, sample_store)
   \<and> sessions (run plain_compare (js ''password123'') empty_store
        [Login (Some (js ''student'')) (Some (js ''password123'')) None 0 1]) (token_of 1) =
       Some \<lparr>userId = 1, expires = TTL\<rparr>
   \<and> length (token_of 1) = 64"
  using C4_expired_token_deleted [of sample_store "token_of 1" "\<lparr>userId = 1, expires = 1000\<rparr>"
      2000 2000 2 plain_compare "js ''password123''"
      "[Login (Some (js ''student'')) (Some (js ''password123'')) None 0 1]" "token_of 1"
      "\<lparr>userId = 1, expires = TTL\<rparr>"]
  by (simp add: sample_lookup token_of_not_Nil sample_login)

text \<open>
  The claim as it stands fails on the sample table at time 2000: the answer to the
  expired token clears the cookie, and the answer to a token that was never in the table
  does not.
\<close>

theorem C4_counterexample:
  "fst (requireAuth sample_store (Some (token_of 1)) 2000 2000) = Unauthorized True
   \<and> fst (requireAuth sample_store (Some (token_of 2)) 2000 2000) = Unauthorized False
   \<and> fst (requireAuth sample_store (Some (token_of 1)) 2000 2000)
       \<noteq> fst (requireAuth sample_store (Some (token_of 2)) 2000 2000)"
  using lookup_Own [of sample_store "token_of 1" "\<lparr>userId = 1, expires = 1000\<rparr>"]
    lookup_token_of [of sample_store 2]
  by (simp add: requireAuth_def sample_lookup token_of_not_Nil)

end
